theory Spec2Isabelle
  imports Main
begin

section \<open>The parsed document\<close>

text \<open>
  \<^verbatim>\<open>linkedin_industry_code.py\<close> fetches one page, parses it with BeautifulSoup and walks
  the resulting tree. The tree is a \<^verbatim>\<open>Tag\<close> with a name and a list of children, a
  \<^verbatim>\<open>NavigableString\<close> (a piece of text), or a string of a kind that \<^verbatim>\<open>get_text\<close>
  leaves out (a comment, a doctype, a processing instruction), here \<open>Comment\<close>.
  Attributes are not modelled: the script never reads one.

  A Python \<^verbatim>\<open>str\<close> is a list of code points; the model uses \<open>string\<close> and so
  covers the code points below 256.
\<close>

datatype node = NavigableString string | Comment string | Tag string "node list"

text \<open>
  \<^verbatim>\<open>Tag.descendants\<close>: every node below a tag, in document order (a node, then what it
  contains, then its next sibling). BeautifulSoup links these nodes into one chain
  through \<^verbatim>\<open>next_element\<close> and \<^verbatim>\<open>previous_element\<close>; the list is that chain.
\<close>

fun descendants :: "node \<Rightarrow> node list" where
  "descendants (Tag n cs) = concat (map (\<lambda>c. c # descendants c) cs)"
| "descendants (NavigableString s) = []"
| "descendants (Comment s) = []"

text \<open>
  The \<^verbatim>\<open>BeautifulSoup\<close> object is itself a tag, named \<^verbatim>\<open>[document]\<close>, whose children
  are the top-level nodes of the page.
\<close>

definition soup :: "node list \<Rightarrow> node" where
  "soup contents = Tag ''[document]'' contents"

text \<open>A name filter given as a list of tag names matches the tags with one of them.\<close>

definition has_name :: "string list \<Rightarrow> node \<Rightarrow> bool" where
  "has_name names x = (case x of Tag n cs \<Rightarrow> n \<in> set names | _ \<Rightarrow> False)"

text \<open>\<^verbatim>\<open>find_all(names)\<close>: the matching descendants, in document order.\<close>

definition find_all :: "string list \<Rightarrow> node \<Rightarrow> node list" where
  "find_all names x = filter (has_name names) (descendants x)"

text \<open>\<^verbatim>\<open>find(names)\<close>: the first match of \<^verbatim>\<open>find_all\<close>, or \<^verbatim>\<open>None\<close>.\<close>

definition find_first :: "string list \<Rightarrow> node \<Rightarrow> node option" where
  "find_first names x = (case find_all names x of [] \<Rightarrow> None | y # ys \<Rightarrow> Some y)"

text \<open>
  An element of the page is identified by its position in the chain \<open>els\<close> of all
  descendants of the soup: two tables with equal content are still two elements.
  \<^verbatim>\<open>find_all_pos\<close> is \<^verbatim>\<open>soup.find_all\<close> returning positions.
\<close>

definition find_all_pos :: "string list \<Rightarrow> node list \<Rightarrow> nat list" where
  "find_all_pos names els = filter (\<lambda>p. has_name names (els ! p)) [0..<length els]"

text \<open>
  \<^verbatim>\<open>find_previous(names)\<close> of the element at position \<open>p\<close>: follow
  \<^verbatim>\<open>previous_element\<close> from it and return the first match. The chain ends at the
  soup object, whose name \<^verbatim>\<open>[document]\<close> is none of the names asked for.
\<close>

fun find_previous :: "string list \<Rightarrow> node list \<Rightarrow> nat \<Rightarrow> node option" where
  "find_previous names els 0 = None"
| "find_previous names els (Suc j) =
     (if has_name names (els ! j) then Some (els ! j) else find_previous names els j)"

subsection \<open>Text of an element\<close>

text \<open>
  \<^verbatim>\<open>str.isspace\<close> on the code points below 256: tab to carriage return, the four
  separators 0x1C to 0x1F, the space, NEL (0x85) and the no-break space (0xA0).
\<close>

definition isspace :: "char \<Rightarrow> bool" where
  "isspace c = (c \<in> set
     [CHR 0x09, CHR 0x0A, CHR 0x0B, CHR 0x0C, CHR 0x0D, CHR 0x1C, CHR 0x1D, CHR 0x1E,
      CHR 0x1F, CHR 0x20, CHR 0x85, CHR 0xA0])"

definition strip :: "string \<Rightarrow> string" where
  "strip s = rev (dropWhile isspace (rev (dropWhile isspace s)))"

text \<open>The text pieces below a node, in document order.\<close>

fun navigable_strings :: "node list \<Rightarrow> string list" where
  "navigable_strings [] = []"
| "navigable_strings (NavigableString s # xs) = s # navigable_strings xs"
| "navigable_strings (x # xs) = navigable_strings xs"

text \<open>
  \<^verbatim>\<open>get_text(strip=True)\<close>: every text piece below the tag is stripped, the pieces
  that become empty are left out, and the rest are joined with the empty separator.
\<close>

definition get_text_strip :: "node \<Rightarrow> string" where
  "get_text_strip x =
     concat (filter (\<lambda>s. s \<noteq> []) (map strip (navigable_strings (descendants x))))"

subsection \<open>Decimal numbers\<close>

definition digit_char :: "nat \<Rightarrow> char" where
  "digit_char d = char_of (48 + d)"

fun str_nat :: "nat \<Rightarrow> string" where
  "str_nat n = (if n < 10 then [digit_char n] else str_nat (n div 10) @ [digit_char (n mod 10)])"

declare str_nat.simps [simp del]

section \<open>extract_and_join_tables\<close>

text \<open>Lines 40 to 51: the name of the table at position \<open>p\<close>, the \<open>i\<close>-th of the page.\<close>

definition headings :: "string list" where
  "headings = [''h1'', ''h2'', ''h3'', ''h4'', ''h5'', ''h6'']"

definition default_name :: "nat \<Rightarrow> string" where
  "default_name i = ''Table '' @ str_nat (i + 1)"

definition caption_or_default :: "node \<Rightarrow> nat \<Rightarrow> string" where
  "caption_or_default table i =
     (case find_first [''caption''] table of
        Some caption \<Rightarrow>
          if get_text_strip caption \<noteq> [] then get_text_strip caption else default_name i
      | None \<Rightarrow> default_name i)"

definition table_name :: "node list \<Rightarrow> nat \<Rightarrow> nat \<Rightarrow> string" where
  "table_name els i p =
     (case find_previous headings els p of
        Some previous_heading \<Rightarrow>
          if get_text_strip previous_heading \<noteq> [] then get_text_strip previous_heading
          else caption_or_default (els ! p) i
      | None \<Rightarrow> caption_or_default (els ! p) i)"

text \<open>Lines 60 to 63: the cells of one row, each \<^verbatim>\<open>append\<close> a step of the loop.\<close>

fun cell_loop :: "node list \<Rightarrow> string list \<Rightarrow> string list" where
  "cell_loop [] row_cells = row_cells"
| "cell_loop (cell # cells) row_cells = cell_loop cells (row_cells @ [get_text_strip cell])"

text \<open>Lines 59 to 67: the rows of one table, appended to \<open>all_combined_rows\<close>.\<close>

fun row_loop :: "string \<Rightarrow> node list \<Rightarrow> string list list \<Rightarrow> string list list" where
  "row_loop name [] all_combined_rows = all_combined_rows"
| "row_loop name (row # rows) all_combined_rows =
     (let row_cells = cell_loop (find_all [''th'', ''td''] row) []
      in row_loop name rows
           (if row_cells \<noteq> [] then all_combined_rows @ [name # row_cells]
            else all_combined_rows))"

text \<open>
  Lines 37 to 67: the loop over \<^verbatim>\<open>enumerate(tables)\<close>; a table with no row is
  skipped by \<^verbatim>\<open>continue\<close>.
\<close>

fun table_loop ::
  "node list \<Rightarrow> (nat \<times> nat) list \<Rightarrow> string list list \<Rightarrow> string list list" where
  "table_loop els [] all_combined_rows = all_combined_rows"
| "table_loop els ((i, p) # tables) all_combined_rows =
     (let name = table_name els i p;
          rows = find_all [''tr''] (els ! p)
      in if rows = [] then table_loop els tables all_combined_rows
         else table_loop els tables (row_loop name rows all_combined_rows))"

text \<open>
  What the script prints, one constructor for each \<^verbatim>\<open>print\<close> call, with the values
  its format string interpolates.
\<close>

datatype message =
    ErrorFetchingURL string string
  | NoTablesFound
  | ExtractedFrom string
  | PreviewHeader
  | PreviewRow "string list"
  | MoreRows int nat
  | FailedToExtract
  | DataWritten string
  | ErrorWritingCSV string string

text \<open>The chain of all elements of a page.\<close>

definition elements :: "node list \<Rightarrow> node list" where
  "elements contents = descendants (soup contents)"

text \<open>Lines 29 to 69, on the parsed page: what is printed and what is returned.\<close>

definition join_tables :: "node list \<Rightarrow> message list \<times> string list list" where
  "join_tables contents =
     (let els = elements contents;
          tables = find_all_pos [''table''] els
      in if tables = [] then ([NoTablesFound], [])
         else ([], table_loop els (enumerate 0 tables) []))"

subsection \<open>The request\<close>

text \<open>
  An exception carries its text (\<^verbatim>\<open>str(e)\<close>). \<^verbatim>\<open>HTTPError\<close> is a subclass of
  \<^verbatim>\<open>RequestException\<close>, as are the transport failures of \<^verbatim>\<open>requests\<close> (connection
  errors, timeouts, invalid URLs), which \<open>RequestException\<close> stands for;
  \<^verbatim>\<open>RequestException\<close> is itself a subclass of \<^verbatim>\<open>IOError\<close>.
  \<^verbatim>\<open>ParserRejectedMarkup\<close> is what BeautifulSoup raises when the parser gives up on a
  document; it is a subclass of \<^verbatim>\<open>Exception\<close> only. \<open>OtherException\<close> is any
  exception outside these classes.
\<close>

datatype exn = RequestException string | HTTPError string | IOError string
  | ParserRejectedMarkup string | OtherException string

fun exn_str :: "exn \<Rightarrow> string" where
  "exn_str (RequestException m) = m"
| "exn_str (HTTPError m) = m"
| "exn_str (IOError m) = m"
| "exn_str (ParserRejectedMarkup m) = m"
| "exn_str (OtherException m) = m"

fun is_RequestException :: "exn \<Rightarrow> bool" where
  "is_RequestException (RequestException m) = True"
| "is_RequestException (HTTPError m) = True"
| "is_RequestException (IOError m) = False"
| "is_RequestException (ParserRejectedMarkup m) = False"
| "is_RequestException (OtherException m) = False"

fun is_IOError :: "exn \<Rightarrow> bool" where
  "is_IOError (RequestException m) = True"
| "is_IOError (HTTPError m) = True"
| "is_IOError (IOError m) = True"
| "is_IOError (ParserRejectedMarkup m) = False"
| "is_IOError (OtherException m) = False"

text \<open>
  \<^verbatim>\<open>requests.get(url)\<close> raises, or returns a response with a status code, a reason
  phrase, the URL of the response (\<^verbatim>\<open>response.url\<close>: the requested URL as
  \<^verbatim>\<open>requests\<close> normalised it, or the one a redirect led to) and a body.
\<close>

datatype http_reply = Raises exn | Response nat string string string

text \<open>
  \<^verbatim>\<open>Response.raise_for_status\<close>: an \<^verbatim>\<open>HTTPError\<close> for a status from 400 to 599; its
  text names the URL of the response.
\<close>

definition raise_for_status :: "string \<Rightarrow> nat \<Rightarrow> string \<Rightarrow> exn option" where
  "raise_for_status url status_code reason =
     (if 400 \<le> status_code \<and> status_code < 500 then
        Some (HTTPError (str_nat status_code @ '' Client Error: '' @ reason @ '' for url: '' @ url))
      else if 500 \<le> status_code \<and> status_code < 600 then
        Some (HTTPError (str_nat status_code @ '' Server Error: '' @ reason @ '' for url: '' @ url))
      else None)"

text \<open>
  The network and the HTML parser are outside the script: a run is given what
  \<^verbatim>\<open>requests.get\<close> answers for a URL and what \<^verbatim>\<open>BeautifulSoup(text, 'html.parser')\<close>
  does with a body: it builds the top-level nodes of a page, or it raises.
\<close>

record world =
  http_get :: "string \<Rightarrow> http_reply"
  html_parser :: "string \<Rightarrow> exn + node list"

text \<open>
  Lines 19 to 26: the handler of \<^verbatim>\<open>except requests.exceptions.RequestException\<close>;
  an exception of another class propagates. The \<^verbatim>\<open>try\<close> holds the request, the
  status check and the call of the parser.
\<close>

definition fetch_failed :: "string \<Rightarrow> exn \<Rightarrow> message list \<times> (exn + string list list)" where
  "fetch_failed url e =
     (if is_RequestException e then ([ErrorFetchingURL url (exn_str e)], Inr [])
      else ([], Inl e))"

definition extract_and_join_tables ::
  "world \<Rightarrow> string \<Rightarrow> message list \<times> (exn + string list list)" where
  "extract_and_join_tables w url =
     (case http_get w url of
        Raises e \<Rightarrow> fetch_failed url e
      | Response status_code reason response_url body \<Rightarrow>
          (case raise_for_status response_url status_code reason of
             Some e \<Rightarrow> fetch_failed url e
           | None \<Rightarrow>
               (case html_parser w body of
                  Inl e \<Rightarrow> fetch_failed url e
                | Inr contents \<Rightarrow>
                    (let (printed, rows) = join_tables contents
                     in (printed, Inr rows)))))"

section \<open>write_to_csv\<close>

subsection \<open>csv.writer with the default dialect\<close>

text \<open>
  The \<^verbatim>\<open>excel\<close> dialect: delimiter comma, quote character \<^verbatim>\<open>"\<close>, doubled quotes,
  line terminator CR LF, \<^verbatim>\<open>QUOTE_MINIMAL\<close>, no escape character.
\<close>

definition delimiter :: char where "delimiter = CHR '',''"
definition quotechar :: char where "quotechar = CHR 0x22"
definition CR :: char where "CR = CHR 0x0D"
definition LF :: char where "LF = CHR 0x0A"
definition lineterminator :: string where "lineterminator = [CR, LF]"

text \<open>
  \<^verbatim>\<open>join_append_data\<close> of \<^verbatim>\<open>_csv.c\<close> runs twice over a field: the first pass finds
  out whether the field has to be quoted (it has a delimiter, a quote character or a
  character of the line terminator), the second copies it, doubling each quote
  character.
\<close>

definition special :: "char \<Rightarrow> bool" where
  "special c = (c = delimiter \<or> c = quotechar \<or> c \<in> set lineterminator)"

definition wants_quotes :: "string \<Rightarrow> bool" where
  "wants_quotes field = list_ex special field"

fun copy_field :: "string \<Rightarrow> string" where
  "copy_field [] = []"
| "copy_field (c # cs) = (if c = quotechar then [quotechar, c] else [c]) @ copy_field cs"

definition join_append :: "nat \<Rightarrow> string \<Rightarrow> bool \<Rightarrow> string" where
  "join_append num_fields field quoted =
     (let q = (quoted \<or> wants_quotes field)
      in (if 0 < num_fields then [delimiter] else [])
         @ (if q then [quotechar] else [])
         @ copy_field field
         @ (if q then [quotechar] else []))"

fun join_loop :: "string list \<Rightarrow> nat \<Rightarrow> string \<Rightarrow> string" where
  "join_loop [] num_fields rec = rec"
| "join_loop (field # rest) num_fields rec =
     join_loop rest (Suc num_fields) (rec @ join_append num_fields field False)"

text \<open>
  \<^verbatim>\<open>writerow\<close>: the fields joined; a record of one empty field would be an empty
  line, so it is written again as a quoted empty field; then the line terminator.
\<close>

definition writerow :: "string list \<Rightarrow> string" where
  "writerow row =
     (let rec = join_loop row 0 []
      in (if 0 < length row \<and> rec = [] then join_append 0 [] True else rec)
         @ lineterminator)"

subsection \<open>The file system\<close>

text \<open>
  The files are a map from path to content. The file is opened with
  \<^verbatim>\<open>newline=''\<close>, so what is written reaches it unchanged; the UTF-8 encoding of the
  text is not modelled.

  What the operating system may refuse is given to a run as a fault: \<^verbatim>\<open>open\<close> raises
  an exception, or the file takes \<open>n\<close> characters and the write that goes beyond
  raises one, leaving the first \<open>n\<close> characters in the file.
\<close>

type_synonym files = "string \<rightharpoonup> string"

datatype fault = OpenFault exn | WriteFault nat exn

text \<open>\<^verbatim>\<open>open(filename, 'w')\<close>: creates the file or truncates it.\<close>

definition open_w :: "fault option \<Rightarrow> string \<Rightarrow> files \<Rightarrow> exn + files" where
  "open_w flt filename fs =
     (case flt of Some (OpenFault e) \<Rightarrow> Inl e | _ \<Rightarrow> Inr (fs(filename \<mapsto> [])))"

definition stream_write :: "fault option \<Rightarrow> string \<Rightarrow> string \<Rightarrow> string \<times> exn option" where
  "stream_write flt content s =
     (case flt of
        Some (WriteFault n e) \<Rightarrow>
          if n < length content + length s then (take n (content @ s), Some e)
          else (content @ s, None)
      | _ \<Rightarrow> (content @ s, None))"

text \<open>Lines 82 and 83: the loop over \<open>data\<close>, stopped by the first exception.\<close>

fun writerow_loop :: "fault option \<Rightarrow> string list list \<Rightarrow> string \<Rightarrow> string \<times> exn option" where
  "writerow_loop flt [] content = (content, None)"
| "writerow_loop flt (row # rows) content =
     (case stream_write flt content (writerow row) of
        (content', Some e) \<Rightarrow> (content', Some e)
      | (content', None) \<Rightarrow> writerow_loop flt rows content')"

text \<open>
  The result of a run of a procedure: what it printed, the files it leaves, and the
  exception that escaped it, if one did.
\<close>

record outcome =
  printed :: "message list"
  files_after :: files
  escaped :: "exn option"

text \<open>Lines 85 and 86: the handler of \<^verbatim>\<open>except IOError\<close>.\<close>

definition write_failed :: "string \<Rightarrow> exn \<Rightarrow> files \<Rightarrow> outcome" where
  "write_failed filename e fs =
     (if is_IOError e
      then \<lparr>printed = [ErrorWritingCSV filename (exn_str e)], files_after = fs, escaped = None\<rparr>
      else \<lparr>printed = [], files_after = fs, escaped = Some e\<rparr>)"

definition write_to_csv :: "fault option \<Rightarrow> string list list \<Rightarrow> string \<Rightarrow> files \<Rightarrow> outcome" where
  "write_to_csv flt data filename fs =
     (case open_w flt filename fs of
        Inl e \<Rightarrow> write_failed filename e fs
      | Inr fs1 \<Rightarrow>
          (case writerow_loop flt data [] of
             (content, Some e) \<Rightarrow> write_failed filename e (fs1(filename \<mapsto> content))
           | (content, None) \<Rightarrow>
               \<lparr>printed = [DataWritten filename], files_after = fs1(filename \<mapsto> content),
                escaped = None\<rparr>))"

section \<open>The script\<close>

definition target_url :: string where
  "target_url =
     ''https://learn.microsoft.com/en-us/linkedin/shared/references/reference-tables/industry-codes-v2''"

definition output_csv_filename :: string where
  "output_csv_filename = ''linkedin_industry_codes.csv''"

text \<open>Lines 88 to 109. The preview loop prints the first ten rows.\<close>

definition main :: "world \<Rightarrow> fault option \<Rightarrow> files \<Rightarrow> outcome" where
  "main w flt fs =
     (case extract_and_join_tables w target_url of
        (out, Inl e) \<Rightarrow> \<lparr>printed = out, files_after = fs, escaped = Some e\<rparr>
      | (out, Inr joined_tables) \<Rightarrow>
          if joined_tables \<noteq> [] then
            (let preview =
                   [ExtractedFrom target_url, PreviewHeader]
                   @ map PreviewRow (take 10 joined_tables)
                   @ [MoreRows (int (length joined_tables) - 10) (length joined_tables)];
                 r = write_to_csv flt joined_tables output_csv_filename fs
             in r\<lparr>printed := out @ preview @ printed r\<rparr>)
          else \<lparr>printed = out @ [FailedToExtract], files_after = fs, escaped = None\<rparr>)"

section \<open>The notions of the specification\<close>

subsection \<open>Tables, rows and names\<close>

text \<open>The tables of a page, by position, in document order.\<close>

definition tables_of :: "node list \<Rightarrow> nat list" where
  "tables_of contents = find_all_pos [''table''] (elements contents)"

text \<open>
  A Row: the trimmed texts of the header and data cells of a row element, in document
  order.
\<close>

definition row_cells :: "node \<Rightarrow> string list" where
  "row_cells row = map get_text_strip (find_all [''th'', ''td''] row)"

text \<open>
  The Labeled Rows of the \<open>i\<close>-th table, at position \<open>p\<close>: its non-empty Rows in
  row order, each with the name of the table in front.
\<close>

definition table_rows :: "node list \<Rightarrow> nat \<Rightarrow> nat \<Rightarrow> string list list" where
  "table_rows els i p =
     map (\<lambda>row. table_name els i p # row_cells row)
       (filter (\<lambda>row. row_cells row \<noteq> []) (find_all [''tr''] (els ! p)))"

text \<open>Table order in the document, then row order within each table.\<close>

definition labeled_rows :: "node list \<Rightarrow> string list list" where
  "labeled_rows contents =
     concat (map (\<lambda>(i, p). table_rows (elements contents) i p)
               (enumerate 0 (tables_of contents)))"

text \<open>The positions of the headings before position \<open>p\<close>; the nearest is the last.\<close>

definition preceding_headings :: "node list \<Rightarrow> nat \<Rightarrow> nat list" where
  "preceding_headings els p = filter (\<lambda>j. has_name headings (els ! j)) [0..<p]"

text \<open>
  The element at position \<open>q\<close> is nested in the element at position \<open>p\<close>: it is
  one of the descendants of \<open>p\<close>, which follow \<open>p\<close> in the chain.
\<close>

definition inside :: "node list \<Rightarrow> nat \<Rightarrow> nat \<Rightarrow> bool" where
  "inside els p q = (p < q \<and> q \<le> p + length (descendants (els ! p)))"

text \<open>
  In a chain, the descendants of every element follow it at once, in their order.
\<close>

definition subtree_follows :: "node list \<Rightarrow> bool" where
  "subtree_follows els \<longleftrightarrow>
     (\<forall>p < length els. \<exists>rest. drop (Suc p) els = descendants (els ! p) @ rest)"

subsection \<open>Reading a delimited file\<close>

text \<open>
  The text \<^verbatim>\<open>write_to_csv\<close> writes for a list of rows when nothing fails.
\<close>

definition csv_text :: "string list list \<Rightarrow> string" where
  "csv_text data = concat (map writerow data)"

text \<open>
  The script has no reader. This one splits a file by the quoting convention of the
  specification, one character at a time: a field that starts with a quote character
  runs to the next single quote character, a doubled quote character in it stands for
  one; any other field runs to the next delimiter or line break; CR, LF or CR LF ends
  a record, and an empty line is a record of no field. A configuration is the state,
  the field being read, the fields of the record being read, and the records read.
\<close>

datatype pstate =
  StartRecord | StartField | InField | InQuotedField | QuoteInQuotedField | EatLF

type_synonym pconf = "pstate \<times> string \<times> string list \<times> string list list"

definition start_field :: "string list \<Rightarrow> string list list \<Rightarrow> char \<Rightarrow> pconf" where
  "start_field flds recs c =
     (if c = quotechar then (InQuotedField, [], flds, recs)
      else if c = delimiter then (StartField, [], flds @ [[]], recs)
      else if c = CR then (EatLF, [], [], recs @ [flds @ [[]]])
      else if c = LF then (StartRecord, [], [], recs @ [flds @ [[]]])
      else (InField, [c], flds, recs))"

definition start_record :: "string list list \<Rightarrow> char \<Rightarrow> pconf" where
  "start_record recs c =
     (if c = CR then (EatLF, [], [], recs @ [[]])
      else if c = LF then (StartRecord, [], [], recs @ [[]])
      else start_field [] recs c)"

definition end_field :: "string \<Rightarrow> string list \<Rightarrow> string list list \<Rightarrow> char \<Rightarrow> pconf" where
  "end_field fld flds recs c =
     (if c = delimiter then (StartField, [], flds @ [fld], recs)
      else if c = CR then (EatLF, [], [], recs @ [flds @ [fld]])
      else if c = LF then (StartRecord, [], [], recs @ [flds @ [fld]])
      else (InField, fld @ [c], flds, recs))"

fun parse_char :: "pconf \<Rightarrow> char \<Rightarrow> pconf" where
  "parse_char (StartRecord, fld, flds, recs) c = start_record recs c"
| "parse_char (EatLF, fld, flds, recs) c =
     (if c = LF then (StartRecord, [], [], recs) else start_record recs c)"
| "parse_char (StartField, fld, flds, recs) c = start_field flds recs c"
| "parse_char (InField, fld, flds, recs) c = end_field fld flds recs c"
| "parse_char (InQuotedField, fld, flds, recs) c =
     (if c = quotechar then (QuoteInQuotedField, fld, flds, recs)
      else (InQuotedField, fld @ [c], flds, recs))"
| "parse_char (QuoteInQuotedField, fld, flds, recs) c =
     (if c = quotechar then (InQuotedField, fld @ [c], flds, recs)
      else end_field fld flds recs c)"

text \<open>At the end of the file a record that no line break closed is still a record.\<close>

fun parse_end :: "pconf \<Rightarrow> string list list" where
  "parse_end (StartRecord, fld, flds, recs) = recs"
| "parse_end (EatLF, fld, flds, recs) = recs"
| "parse_end (st, fld, flds, recs) = recs @ [flds @ [fld]]"

definition parse_csv :: "string \<Rightarrow> string list list" where
  "parse_csv s = parse_end (foldl parse_char (StartRecord, [], [], []) s)"

text \<open>One field as \<^verbatim>\<open>writerow\<close> writes it, without the delimiter before it.\<close>

definition csv_field :: "string \<Rightarrow> string" where
  "csv_field f = join_append 0 f False"

subsection \<open>Failures\<close>

text \<open>
  The GET fails: the transport raises an exception of \<^verbatim>\<open>requests\<close>, or the response
  has an error status (4xx or 5xx).
\<close>

definition fetch_fails :: "world \<Rightarrow> string \<Rightarrow> bool" where
  "fetch_fails w url =
     (case http_get w url of
        Raises e \<Rightarrow> is_RequestException e
      | Response status_code reason response_url body \<Rightarrow>
          400 \<le> status_code \<and> status_code < 600)"

section \<open>Example inputs\<close>

text \<open>
  Rows whose fields hold a delimiter, a quote character and a line break, with an
  empty field at the end of a row, a row of one empty field and a row of no field.
\<close>

definition example_rows :: "string list list" where
  "example_rows =
     [[''T1'', ''a,b'', [CHR ''x'', quotechar, CHR ''y''], [CR, LF], []], [[]], []]"

text \<open>
  A page of four tables: the first with no heading before it and no caption, the second
  after a heading and with a caption, the third after a heading of blanks and with a
  caption, the fourth after the same heading and with no caption. The second table has
  a row of no cell.
\<close>

definition example_page :: "node list" where
  "example_page =
     [Tag ''table'' [Tag ''tr'' [Tag ''td'' [NavigableString ''a'']]],
      Tag ''h2'' [NavigableString '' Industry Codes ''],
      Tag ''table''
        [Tag ''caption'' [NavigableString ''ignored''],
         Tag ''tr'' [Tag ''th'' [NavigableString ''Code''], Tag ''th'' [NavigableString ''Name'']],
         Tag ''tr'' [],
         Tag ''tr'' [Tag ''td'' [NavigableString ''51''], Tag ''td'' [NavigableString ''Finance '']]],
      Tag ''h3'' [NavigableString ''  ''],
      Tag ''table''
        [Tag ''caption'' [NavigableString ''Appendix''],
         Tag ''tr'' [Tag ''td'' [NavigableString ''x'']]],
      Tag ''table'' [Tag ''tr'' [Tag ''td'' [NavigableString ''y'']]]]"


text \<open>A page of two tables after one heading, the second with a caption.\<close>

definition shared_heading_page :: "node list" where
  "shared_heading_page =
     [Tag ''h2'' [NavigableString ''Codes''],
      Tag ''table'' [Tag ''tr'' [Tag ''td'' [NavigableString ''1'']]],
      Tag ''p'' [NavigableString ''between''],
      Tag ''table''
        [Tag ''caption'' [NavigableString ''Second''],
         Tag ''tr'' [Tag ''td'' [NavigableString ''2'']]]]"

text \<open>
  A server that answers 404, a server that cannot be reached, one that serves the
  page of four tables, and one that serves a body the parser rejects.
\<close>

definition world_404 :: world where
  "world_404 = \<lparr>http_get = (\<lambda>url. Response 404 ''Not Found'' url ''gone''),
                html_parser = (\<lambda>body. Inr [])\<rparr>"

definition world_down :: world where
  "world_down = \<lparr>http_get = (\<lambda>url. Raises (RequestException ''Connection refused'')),
                 html_parser = (\<lambda>body. Inr [])\<rparr>"

definition world_ok :: world where
  "world_ok = \<lparr>http_get = (\<lambda>url. Response 200 ''OK'' url ''<html>''),
               html_parser = (\<lambda>body. Inr example_page)\<rparr>"

definition world_rejected :: world where
  "world_rejected =
     \<lparr>http_get = (\<lambda>url. Response 200 ''OK'' url ''<p><![foo]></p>''),
      html_parser = (\<lambda>body. Inl (ParserRejectedMarkup ''rejected''))\<rparr>"

text \<open>A table in a cell of a table.\<close>

definition nested_page :: "node list" where
  "nested_page =
     [Tag ''table''
        [Tag ''caption'' [NavigableString ''Outer''],
         Tag ''tr''
           [Tag ''td''
              [NavigableString ''o'',
               Tag ''table''
                 [Tag ''caption'' [NavigableString ''Inner''],
                  Tag ''tr'' [Tag ''td'' [NavigableString ''x'']]]]]]]"

section \<open>The loops in closed form\<close>

lemma cell_loop_eq: "cell_loop cells acc = acc @ map get_text_strip cells"
  by (induction cells arbitrary: acc) auto

lemma row_loop_eq:
  "row_loop name rows acc =
     acc @ map (\<lambda>row. name # row_cells row) (filter (\<lambda>row. row_cells row \<noteq> []) rows)"
  by (induction rows arbitrary: acc) (auto simp: cell_loop_eq row_cells_def Let_def)

lemma table_loop_eq:
  "table_loop els tabs acc = acc @ concat (map (\<lambda>(i, p). table_rows els i p) tabs)"
proof (induction tabs arbitrary: acc)
  case Nil
  then show ?case by simp
next
  case (Cons t tabs)
  obtain i p where t: "t = (i, p)" by (cases t)
  show ?case
    by (simp add: t Cons.IH Let_def row_loop_eq table_rows_def)
qed

lemma join_tables_rows: "snd (join_tables contents) = labeled_rows contents"
  by (simp add: join_tables_def labeled_rows_def tables_of_def table_loop_eq Let_def)

section \<open>Names and rows of the result\<close>

lemma find_previous_eq:
  "find_previous names els p =
     (case filter (\<lambda>j. has_name names (els ! j)) [0..<p] of
        [] \<Rightarrow> None
      | js \<Rightarrow> Some (els ! last js))"
  by (induction p) (auto split: list.splits)

lemma find_previous_nearest:
  "j < p \<Longrightarrow> has_name names (els ! j) \<Longrightarrow>
   \<forall>k. j < k \<and> k < p \<longrightarrow> \<not> has_name names (els ! k) \<Longrightarrow>
   find_previous names els p = Some (els ! j)"
proof (induction p)
  case 0
  then show ?case by simp
next
  case (Suc p)
  show ?case
  proof (cases "j = p")
    case True
    with Suc.prems show ?thesis by simp
  next
    case False
    with Suc.prems have "j < p" and "\<not> has_name names (els ! p)" by auto
    with Suc show ?thesis by simp
  qed
qed

lemma table_name_eq:
  "table_name els i p =
     (if preceding_headings els p \<noteq> []
         \<and> get_text_strip (els ! last (preceding_headings els p)) \<noteq> []
      then get_text_strip (els ! last (preceding_headings els p))
      else if find_all [''caption''] (els ! p) \<noteq> []
         \<and> get_text_strip (hd (find_all [''caption''] (els ! p))) \<noteq> []
      then get_text_strip (hd (find_all [''caption''] (els ! p)))
      else ''Table '' @ str_nat (i + 1))"
  by (auto simp: table_name_def find_previous_eq preceding_headings_def caption_or_default_def
      find_first_def default_name_def split: list.splits)

lemma in_enumerate_iff:
  "x \<in> set (enumerate 0 xs) \<longleftrightarrow> (\<exists>i < length xs. x = (i, xs ! i))"
  by (auto simp: in_set_conv_nth nth_enumerate_eq)

lemma bex_enumerate:
  "(\<exists>x \<in> set (enumerate 0 xs). P x) \<longleftrightarrow> (\<exists>i < length xs. P (i, xs ! i))"
  by (metis in_enumerate_iff)

lemma in_table_rows_iff:
  "lr \<in> set (table_rows els i p) \<longleftrightarrow>
     (\<exists>row \<in> set (find_all [''tr''] (els ! p)).
        row_cells row \<noteq> [] \<and> lr = table_name els i p # row_cells row)"
  by (auto simp: table_rows_def)

lemma in_labeled_rows_iff:
  "lr \<in> set (labeled_rows contents) \<longleftrightarrow>
     (\<exists>i < length (tables_of contents).
        \<exists>row \<in> set (find_all [''tr''] (elements contents ! (tables_of contents ! i))).
          row_cells row \<noteq> []
          \<and> lr = table_name (elements contents) i (tables_of contents ! i) # row_cells row)"
proof -
  have "lr \<in> set (labeled_rows contents) \<longleftrightarrow>
        (\<exists>x \<in> set (enumerate 0 (tables_of contents)).
           lr \<in> set (table_rows (elements contents) (fst x) (snd x)))"
    by (simp add: labeled_rows_def case_prod_beta)
  also have "\<dots> \<longleftrightarrow> (\<exists>i < length (tables_of contents).
           lr \<in> set (table_rows (elements contents) i (tables_of contents ! i)))"
    by (simp add: bex_enumerate)
  finally show ?thesis by (simp only: in_table_rows_iff)
qed

lemma tables_of_example_page: "tables_of example_page = [0, 6, 22, 28]"
  by code_simp

section \<open>Nested elements\<close>

lemma descendants_trans:
  "y \<in> set (descendants x) \<Longrightarrow> set (descendants y) \<subseteq> set (descendants x)"
proof (induction x rule: descendants.induct)
  case (1 n cs)
  then obtain c where c: "c \<in> set cs" and y: "y = c \<or> y \<in> set (descendants c)"
    by auto
  from y have "set (descendants y) \<subseteq> set (descendants c)"
    using "1.IH" [OF c] by auto
  with c show ?case by auto
qed simp_all

lemma subtree_follows_Nil: "subtree_follows []"
  by (simp add: subtree_follows_def)

lemma subtree_follows_Cons:
  assumes c: "subtree_follows (descendants c)" and r: "subtree_follows els"
  shows "subtree_follows (c # descendants c @ els)"
  unfolding subtree_follows_def
proof (intro allI impI)
  fix p
  assume p: "p < length (c # descendants c @ els)"
  let ?l = "c # descendants c @ els"
  show "\<exists>rest. drop (Suc p) ?l = descendants (?l ! p) @ rest"
  proof (cases p)
    case 0
    then show ?thesis by simp
  next
    case (Suc k)
    show ?thesis
    proof (cases "k < length (descendants c)")
      case True
      with c obtain rest where
        "drop (Suc k) (descendants c) = descendants (descendants c ! k) @ rest"
        unfolding subtree_follows_def by blast
      with True Suc show ?thesis by (simp add: nth_append)
    next
      case False
      let ?m = "k - length (descendants c)"
      from False p Suc have "?m < length els" by simp
      with r obtain rest where "drop (Suc ?m) els = descendants (els ! ?m) @ rest"
        unfolding subtree_follows_def by blast
      with False Suc show ?thesis by (simp add: nth_append Suc_diff_le)
    qed
  qed
qed

lemma subtree_follows_descendants: "subtree_follows (descendants x)"
proof (induction x rule: descendants.induct)
  case (1 n cs)
  have "subtree_follows (concat (map (\<lambda>c. c # descendants c) cs'))"
    if "set cs' \<subseteq> set cs" for cs'
    using that
  proof (induction cs')
    case Nil
    then show ?case by (simp add: subtree_follows_Nil)
  next
    case (Cons c cs')
    then show ?case using "1.IH" [of c] by (simp add: subtree_follows_Cons)
  qed
  then show ?case by simp
qed (simp_all add: subtree_follows_Nil)

lemma inside_descendant:
  assumes "inside (descendants x) p q" and "q < length (descendants x)"
  shows "descendants x ! q \<in> set (descendants (descendants x ! p))"
proof -
  let ?els = "descendants x"
  from assms have pq: "p < q" and le: "q \<le> p + length (descendants (?els ! p))"
    by (simp_all add: inside_def)
  from pq assms(2) have "p < length ?els" by simp
  then obtain rest where d: "drop (Suc p) ?els = descendants (?els ! p) @ rest"
    using subtree_follows_descendants [of x] unfolding subtree_follows_def by blast
  have lt: "q - Suc p < length (descendants (?els ! p))"
    using pq le by arith
  have "?els ! q = drop (Suc p) ?els ! (q - Suc p)"
    using pq assms(2) by simp
  also have "\<dots> = descendants (?els ! p) ! (q - Suc p)"
    using lt by (simp add: d nth_append)
  also have "\<dots> \<in> set (descendants (?els ! p))"
    using lt by (rule nth_mem)
  finally show ?thesis .
qed


lemma find_all_nested:
  "y \<in> set (descendants x) \<Longrightarrow> set (find_all names y) \<subseteq> set (find_all names x)"
  using descendants_trans [of y x] by (auto simp: find_all_def)

lemma length_filter_concat_ge:
  assumes "i < length xs" and "a \<in> set (f (xs ! i))" and "P a"
  shows "1 \<le> length (filter P (concat (map f xs)))"
proof -
  have "a \<in> set (filter P (concat (map f xs)))"
    using assms by (auto intro!: bexI [of _ "xs ! i"])
  then show ?thesis by (cases "filter P (concat (map f xs))") auto
qed

lemma two_in_concat:
  assumes "i < j" and "j < length xs"
    and "a \<in> set (f (xs ! i))" and "P a"
    and "b \<in> set (f (xs ! j))" and "P b"
  shows "2 \<le> length (filter P (concat (map f xs)))"
proof -
  have xs: "xs = take j xs @ drop j xs" by simp
  have "1 \<le> length (filter P (concat (map f (take j xs))))"
    using assms by (intro length_filter_concat_ge [where i = i and a = a]) simp_all
  moreover have "1 \<le> length (filter P (concat (map f (drop j xs))))"
    using assms by (intro length_filter_concat_ge [where i = 0 and a = b]) simp_all
  moreover have "length (filter P (concat (map f xs))) =
      length (filter P (concat (map f (take j xs))))
      + length (filter P (concat (map f (drop j xs))))"
    by (subst xs) (simp only: map_append concat_append filter_append length_append)
  ultimately show ?thesis by simp
qed

lemma tables_of_sorted: "sorted_wrt (<) (tables_of contents)"
  by (simp add: tables_of_def find_all_pos_def sorted_wrt_filter)

lemma tables_of_less:
  assumes "i < length (tables_of contents)" and "i' < length (tables_of contents)"
    and "tables_of contents ! i < tables_of contents ! i'"
  shows "i < i'"
proof (rule ccontr)
  assume "\<not> i < i'"
  then have "i' = i \<or> i' < i" by arith
  then show False
  proof
    assume "i' = i" with assms(3) show False by simp
  next
    assume "i' < i"
    then have "tables_of contents ! i' < tables_of contents ! i"
      using tables_of_sorted assms(1) by (simp add: sorted_wrt_nth_less)
    with assms(3) show False by simp
  qed
qed


lemma tables_of_in_range:
  "i < length (tables_of contents) \<Longrightarrow> tables_of contents ! i < length (elements contents)"
proof -
  assume "i < length (tables_of contents)"
  then have "tables_of contents ! i \<in> set (tables_of contents)" by (rule nth_mem)
  then show ?thesis by (simp add: tables_of_def find_all_pos_def)
qed

section \<open>Reading back what csv.writer wrote\<close>

lemma chars_distinct [simp]:
  "delimiter \<noteq> quotechar" "quotechar \<noteq> delimiter" "CR \<noteq> LF" "LF \<noteq> CR"
  "CR \<noteq> quotechar" "LF \<noteq> quotechar" "CR \<noteq> delimiter" "LF \<noteq> delimiter"
  "quotechar \<noteq> CR" "quotechar \<noteq> LF" "delimiter \<noteq> CR" "delimiter \<noteq> LF"
  by (simp_all add: delimiter_def quotechar_def CR_def LF_def)

lemma special_iff: "special c \<longleftrightarrow> c = delimiter \<or> c = quotechar \<or> c = CR \<or> c = LF"
  by (auto simp: special_def lineterminator_def)

lemma copy_plain: "\<not> list_ex special f \<Longrightarrow> copy_field f = f"
  by (induction f) (auto simp: special_iff)

lemma in_field_plain:
  "\<not> list_ex special f \<Longrightarrow>
   foldl parse_char (InField, fld, flds, recs) f = (InField, fld @ f, flds, recs)"
  by (induction f arbitrary: fld) (auto simp: special_iff end_field_def)

lemma in_quoted_copy:
  "foldl parse_char (InQuotedField, fld, flds, recs) (copy_field f) =
     (InQuotedField, fld @ f, flds, recs)"
  by (induction f arbitrary: fld) auto


lemma join_append_Suc: "join_append (Suc n) f False = delimiter # csv_field f"
  by (simp add: join_append_def csv_field_def Let_def)

lemma csv_field_cases:
  "csv_field f = (if list_ex special f then quotechar # copy_field f @ [quotechar] else f)"
  by (simp add: csv_field_def join_append_def wants_quotes_def copy_plain)

text \<open>A field and the character that ends it, read at the start of a field.\<close>

lemma field_then:
  assumes "c = delimiter \<or> c = CR \<or> c = LF"
  shows "parse_char (foldl parse_char (StartField, [], flds, recs) (csv_field f)) c =
           end_field f flds recs c"
proof (cases "list_ex special f")
  case True
  then show ?thesis using assms
    by (auto simp: csv_field_cases start_field_def in_quoted_copy)
next
  case False
  show ?thesis
  proof (cases f)
    case Nil
    then show ?thesis using assms
      by (auto simp: csv_field_cases start_field_def end_field_def)
  next
    case (Cons a f')
    with False have a: "\<not> special a" and f': "\<not> list_ex special f'" by auto
    then show ?thesis using assms Cons False
      by (auto simp: csv_field_cases start_field_def in_field_plain special_iff)
  qed
qed


lemma join_loop_Suc:
  "join_loop fs (Suc n) rec = rec @ concat (map (\<lambda>f. delimiter # csv_field f) fs)"
  by (induction fs arbitrary: n rec) (auto simp: join_append_Suc)

lemma join_loop_Cons:
  "join_loop (f # fs) 0 rec = rec @ csv_field f @ concat (map (\<lambda>f. delimiter # csv_field f) fs)"
  by (simp add: join_loop_Suc csv_field_def)

lemma csv_field_Nil_iff: "csv_field f = [] \<longleftrightarrow> f = []"
  by (auto simp: csv_field_cases)

lemma hd_csv_field: "f \<noteq> [] \<Longrightarrow> hd (csv_field f) \<noteq> CR \<and> hd (csv_field f) \<noteq> LF"
  by (cases f) (auto simp: csv_field_cases special_iff)

lemma writerow_Nil: "writerow [] = [CR, LF]"
  by (simp add: writerow_def lineterminator_def)

lemma writerow_empty_field: "writerow [[]] = [quotechar, quotechar, CR, LF]"
  by (simp add: writerow_def lineterminator_def join_append_def wants_quotes_def)

lemma writerow_Cons:
  "f # fs \<noteq> [[]] \<Longrightarrow>
   writerow (f # fs) =
     csv_field f @ concat (map (\<lambda>f. delimiter # csv_field f) fs) @ [CR, LF]"
  by (cases fs)
    (auto simp: writerow_def join_loop_Cons csv_field_Nil_iff lineterminator_def Let_def
          simp del: join_loop.simps)

lemma end_field_delimiter:
  "end_field f flds recs delimiter = (StartField, [], flds @ [f], recs)"
  by (simp add: end_field_def)

lemma fields_then_newline:
  "foldl parse_char (StartField, [], flds, recs)
     (csv_field f @ concat (map (\<lambda>f. delimiter # csv_field f) fs) @ [CR, LF]) =
   (StartRecord, [], [], recs @ [flds @ f # fs])"
proof (induction fs arbitrary: f flds)
  case Nil
  have "foldl parse_char (StartField, [], flds, recs) ((csv_field f @ [CR]) @ [LF]) =
        parse_char (end_field f flds recs CR) LF"
    by (simp add: field_then)
  then show ?case by (simp add: end_field_def)
next
  case (Cons g gs)
  let ?rest = "csv_field g @ concat (map (\<lambda>f. delimiter # csv_field f) gs) @ [CR, LF]"
  have "foldl parse_char (StartField, [], flds, recs) ((csv_field f @ [delimiter]) @ ?rest) =
        foldl parse_char (end_field f flds recs delimiter) ?rest"
    by (simp add: field_then)
  also have "\<dots> = (StartRecord, [], [], recs @ [(flds @ [f]) @ g # gs])"
    unfolding end_field_delimiter by (rule Cons.IH)
  finally show ?case by simp
qed

lemma start_record_as_field:
  "s \<noteq> [] \<Longrightarrow> hd s \<noteq> CR \<Longrightarrow> hd s \<noteq> LF \<Longrightarrow>
   foldl parse_char (StartRecord, fld, flds, recs) s =
   foldl parse_char (StartField, [], [], recs) s"
  by (cases s) (auto simp: start_record_def)

lemma parse_writerow:
  "foldl parse_char (StartRecord, [], [], recs) (writerow row) =
     (StartRecord, [], [], recs @ [row])"
proof (cases row)
  case Nil
  then show ?thesis by (simp add: writerow_Nil start_record_def)
next
  case (Cons f fs)
  show ?thesis
  proof (cases "row = [[]]")
    case True
    then show ?thesis
      by (simp add: writerow_empty_field start_record_def start_field_def end_field_def)
  next
    case False
    let ?s = "csv_field f @ concat (map (\<lambda>f. delimiter # csv_field f) fs) @ [CR, LF]"
    have w: "writerow row = ?s" using False Cons by (simp add: writerow_Cons)
    have "hd ?s \<noteq> CR \<and> hd ?s \<noteq> LF"
    proof (cases "f = []")
      case True
      with False Cons obtain g gs where "fs = g # gs" by (cases fs) auto
      with True show ?thesis by (simp add: csv_field_Nil_iff[THEN iffD2])
    next
      case False
      then have "csv_field f \<noteq> []" by (simp add: csv_field_Nil_iff)
      then show ?thesis using hd_csv_field[OF False] by simp
    qed
    then have "foldl parse_char (StartRecord, [], [], recs) ?s =
               foldl parse_char (StartField, [], [], recs) ?s"
      by (intro start_record_as_field) auto
    then show ?thesis using w Cons by (simp only: fields_then_newline append_Nil)
  qed
qed

lemma parse_written:
  "foldl parse_char (StartRecord, [], [], recs) (concat (map writerow data)) =
     (StartRecord, [], [], recs @ data)"
  by (induction data arbitrary: recs) (simp_all add: parse_writerow)

lemma parse_csv_text: "parse_csv (csv_text data) = data"
  by (simp add: parse_csv_def csv_text_def parse_written)

section \<open>The writer\<close>

lemma writerow_loop_no_fault:
  "writerow_loop None data content = (content @ csv_text data, None)"
  by (induction data arbitrary: content) (simp_all add: csv_text_def stream_write_def)

lemma write_to_csv_no_fault:
  "write_to_csv None data filename fs =
     \<lparr>printed = [DataWritten filename], files_after = fs(filename \<mapsto> csv_text data),
      escaped = None\<rparr>"
  by (simp add: write_to_csv_def open_w_def writerow_loop_no_fault)

lemma writerow_loop_write_fault:
  "length content \<le> n \<Longrightarrow>
   writerow_loop (Some (WriteFault n e)) data content =
     (if n < length content + length (csv_text data)
      then (take n (content @ csv_text data), Some e)
      else (content @ csv_text data, None))"
  by (induction data arbitrary: content) (auto simp: csv_text_def stream_write_def)

lemma write_to_csv_open_fault:
  "is_IOError e \<Longrightarrow>
   write_to_csv (Some (OpenFault e)) data filename fs =
     \<lparr>printed = [ErrorWritingCSV filename (exn_str e)], files_after = fs, escaped = None\<rparr>"
  by (simp add: write_to_csv_def open_w_def write_failed_def)

lemma write_to_csv_write_fault:
  "is_IOError e \<Longrightarrow>
   write_to_csv (Some (WriteFault n e)) data filename fs =
     (if n < length (csv_text data)
      then \<lparr>printed = [ErrorWritingCSV filename (exn_str e)],
            files_after = fs(filename \<mapsto> take n (csv_text data)), escaped = None\<rparr>
      else \<lparr>printed = [DataWritten filename],
            files_after = fs(filename \<mapsto> csv_text data), escaped = None\<rparr>)"
  by (simp add: write_to_csv_def open_w_def write_failed_def writerow_loop_write_fault)

lemma files_after_write_twice:
  "files_after (write_to_csv flt data filename (files_after (write_to_csv flt data filename fs)))
     = files_after (write_to_csv flt data filename fs)"
  by (auto simp: write_to_csv_def open_w_def write_failed_def
      split: option.splits fault.splits prod.splits sum.splits)


section \<open>Rows of no cell\<close>

lemma row_loop_skips_empty:
  "row_cells row = [] \<Longrightarrow>
   row_loop name (rows1 @ row # rows2) acc = row_loop name (rows1 @ rows2) acc"
  by (simp add: row_loop_eq)

lemma no_one_field_row: "[name] \<notin> set (labeled_rows contents)"
  by (auto simp: in_labeled_rows_iff)

section \<open>Failures of the request and of the file\<close>

lemma fetch_failed_request:
  "is_RequestException e \<Longrightarrow>
   fetch_failed url e = ([ErrorFetchingURL url (exn_str e)], Inr [])"
  by (simp add: fetch_failed_def)

lemma raise_for_status_error:
  "400 \<le> c \<Longrightarrow> c < 600 \<Longrightarrow>
   \<exists>m. raise_for_status url c r = Some (HTTPError m)"
  by (auto simp: raise_for_status_def)

lemma extract_fetch_fails:
  assumes "fetch_fails w url"
  shows "\<exists>msg. extract_and_join_tables w url = ([ErrorFetchingURL url msg], Inr [])"
proof (cases "http_get w url")
  case (Raises e)
  with assms have "is_RequestException e" by (simp add: fetch_fails_def)
  then show ?thesis
    by (simp add: extract_and_join_tables_def Raises fetch_failed_request)
next
  case (Response c r u b)
  with assms have "400 \<le> c" "c < 600" by (simp_all add: fetch_fails_def)
  then obtain m where "raise_for_status u c r = Some (HTTPError m)"
    using raise_for_status_error by blast
  then show ?thesis
    by (simp add: extract_and_join_tables_def Response fetch_failed_request)
qed

text \<open>Once the extractor has returned, only the writer can stop the script.\<close>

lemma main_no_escape:
  assumes "extract_and_join_tables w target_url = (out, Inr rows)"
    and "\<And>data. escaped (write_to_csv flt data output_csv_filename fs) = None"
  shows "escaped (main w flt fs) = None"
  using assms by (simp add: main_def Let_def)

text \<open>
  A body that the parser rejects ends the script: the exception is none that the
  handler of the extractor catches.
\<close>

lemma parser_exception_escapes:
  "extract_and_join_tables world_rejected target_url
     = ([], Inl (ParserRejectedMarkup ''rejected''))
   \<and> escaped (main world_rejected flt fs) = Some (ParserRejectedMarkup ''rejected'')"
proof -
  have "extract_and_join_tables world_rejected target_url
     = ([], Inl (ParserRejectedMarkup ''rejected''))"
    by (simp add: extract_and_join_tables_def world_rejected_def raise_for_status_def
        fetch_failed_def)
  then show ?thesis by (simp add: main_def)
qed

section \<open>The claims\<close>

text \<open>
  C4. Round trip: for every list of rows, whatever characters their fields hold
  (delimiters, quote characters and line breaks included), reading the file that
  \<^verbatim>\<open>write_to_csv\<close> wrote, by the quoting convention, gives back the rows that were
  written, field for field.
\<close>

theorem csv_round_trip:
  "map_option parse_csv (files_after (write_to_csv None data filename fs) filename) = Some data"
  by (simp add: write_to_csv_no_fault parse_csv_text)

theorem csv_round_trip_witness:
  "files_after (write_to_csv None example_rows ''out.csv'' Map.empty) ''out.csv''
     = Some ([CHR ''T'', CHR ''1'',
              delimiter, quotechar, CHR ''a'', delimiter, CHR ''b'', quotechar,
              delimiter, quotechar, CHR ''x'', quotechar, quotechar, CHR ''y'', quotechar,
              delimiter, quotechar, CR, LF, quotechar, delimiter, CR, LF,
              quotechar, quotechar, CR, LF, CR, LF])
   \<and> map_option parse_csv
         (files_after (write_to_csv None example_rows ''out.csv'' Map.empty) ''out.csv'')
     = Some [[''T1'', ''a,b'', [CHR ''x'', quotechar, CHR ''y''], [CR, LF], []], [[]], []]"
proof -
  have "files_after (write_to_csv None example_rows ''out.csv'' Map.empty) ''out.csv''
     = Some ([CHR ''T'', CHR ''1'',
              delimiter, quotechar, CHR ''a'', delimiter, CHR ''b'', quotechar,
              delimiter, quotechar, CHR ''x'', quotechar, quotechar, CHR ''y'', quotechar,
              delimiter, quotechar, CR, LF, quotechar, delimiter, CR, LF,
              quotechar, quotechar, CR, LF, CR, LF])"
    by code_simp
  moreover have "map_option parse_csv
         (files_after (write_to_csv None example_rows ''out.csv'' Map.empty) ''out.csv'')
     = Some [[''T1'', ''a,b'', [CHR ''x'', quotechar, CHR ''y''], [CR, LF], []], [[]], []]"
    using csv_round_trip [of example_rows "''out.csv''" Map.empty]
    by (simp only: example_rows_def)
  ultimately show ?thesis by (rule conjI)
qed

text \<open>
  C1. Every table of the page gets one name. The table is the \<open>i\<close>-th of the page
  (counting from 0) and stands at position \<open>p\<close>. If there is a heading (\<^verbatim>\<open>h1\<close> to
  \<^verbatim>\<open>h6\<close>) before it, and the nearest one has non-empty trimmed text, the name is that
  text, whatever caption the table has; otherwise, if the table has a caption (the
  first one the table contains, as \<^verbatim>\<open>find\<close> returns it) with non-empty trimmed text,
  the name is that text; otherwise the name is \<^verbatim>\<open>Table\<close>, a space and \<open>i + 1\<close> in
  decimal. The trimmed text is that of \<^verbatim>\<open>get_text(strip=True)\<close>.
\<close>

theorem table_name_precedence:
  assumes "i < length (tables_of contents)"
    and "p = tables_of contents ! i"
    and "els = elements contents"
  shows "table_name els i p =
     (if preceding_headings els p \<noteq> []
         \<and> get_text_strip (els ! last (preceding_headings els p)) \<noteq> []
      then get_text_strip (els ! last (preceding_headings els p))
      else if find_all [''caption''] (els ! p) \<noteq> []
         \<and> get_text_strip (hd (find_all [''caption''] (els ! p))) \<noteq> []
      then get_text_strip (hd (find_all [''caption''] (els ! p)))
      else ''Table '' @ str_nat (i + 1))"
  by (rule table_name_eq)

theorem table_name_precedence_witness:
  "table_name (elements example_page) 0 0 = ''Table 1''
   \<and> table_name (elements example_page) 1 6 = ''Industry Codes''
   \<and> table_name (elements example_page) 2 22 = ''Appendix''
   \<and> table_name (elements example_page) 3 28 = ''Table 4''"
proof -
  note t = tables_of_example_page
  have "table_name (elements example_page) 0 0 = ''Table 1''"
    by (subst table_name_precedence [where contents = example_page and i = 0])
       (simp add: t, simp add: t, rule refl, code_simp)
  moreover have "table_name (elements example_page) 1 6 = ''Industry Codes''"
    by (subst table_name_precedence [where contents = example_page and i = 1])
       (simp add: t, simp add: t, rule refl, code_simp)
  moreover have "table_name (elements example_page) 2 22 = ''Appendix''"
    by (subst table_name_precedence [where contents = example_page and i = 2])
       (simp add: t, simp add: t, rule refl, code_simp)
  moreover have "table_name (elements example_page) 3 28 = ''Table 4''"
    by (subst table_name_precedence [where contents = example_page and i = 3])
       (simp add: t, simp add: t, rule refl, code_simp)
  ultimately show ?thesis by blast
qed

text \<open>
  C2. The rows returned are those of the tables in document order, and within a table
  those of its rows in row order: nothing is reordered and equal rows are kept.
\<close>

theorem rows_in_document_order:
  "snd (join_tables contents) = labeled_rows contents"
  by (rule join_tables_rows)

theorem rows_in_document_order_witness:
  "snd (join_tables example_page) =
     [[''Table 1'', ''a''],
      [''Industry Codes'', ''Code'', ''Name''],
      [''Industry Codes'', ''51'', ''Finance''],
      [''Appendix'', ''x''],
      [''Table 4'', ''y'']]"
proof -
  have "labeled_rows example_page =
     [[''Table 1'', ''a''],
      [''Industry Codes'', ''Code'', ''Name''],
      [''Industry Codes'', ''51'', ''Finance''],
      [''Appendix'', ''x''],
      [''Table 4'', ''y'']]"
    by code_simp
  then show ?thesis by (simp only: rows_in_document_order)
qed

text \<open>
  C8. Two tables after one heading with non-empty text, with no other heading before
  the second, both get the text of that heading as their name, whatever caption the
  second has.
\<close>

theorem shared_heading_same_name:
  assumes "i < length (tables_of contents)" and "i' < length (tables_of contents)"
    and "p = tables_of contents ! i" and "q = tables_of contents ! i'"
    and "els = elements contents"
    and "j < p" and "p < q"
    and "has_name headings (els ! j)"
    and "\<forall>k \<in> {j<..<q}. \<not> has_name headings (els ! k)"
    and "get_text_strip (els ! j) \<noteq> []"
  shows "table_name els i p = get_text_strip (els ! j)
       \<and> table_name els i' q = get_text_strip (els ! j)"
proof -
  have "find_previous headings els p = Some (els ! j)"
    using assms by (intro find_previous_nearest) auto
  moreover have "find_previous headings els q = Some (els ! j)"
    using assms by (intro find_previous_nearest) auto
  ultimately show ?thesis
    using assms(10) by (simp add: table_name_def)
qed


theorem shared_heading_same_name_witness:
  "table_name (elements shared_heading_page) 0 2 = ''Codes''
   \<and> table_name (elements shared_heading_page) 1 8 = ''Codes''"
proof -
  have t: "tables_of shared_heading_page = [2, 8]" by code_simp
  have h: "has_name headings (elements shared_heading_page ! 0)" by code_simp
  have n: "\<forall>k \<in> {0<..<8}. \<not> has_name headings (elements shared_heading_page ! k)"
    by code_simp
  have x: "get_text_strip (elements shared_heading_page ! 0) = ''Codes''" by code_simp
  have "table_name (elements shared_heading_page) 0 2
          = get_text_strip (elements shared_heading_page ! 0)
        \<and> table_name (elements shared_heading_page) 1 8
          = get_text_strip (elements shared_heading_page ! 0)"
    by (rule shared_heading_same_name [where contents = shared_heading_page and j = 0])
       (simp_all add: t h n x)
  then show ?thesis by (simp only: x)
qed


text \<open>
  C10. Every row returned has at least two fields: the name of a table of the page,
  then the cells of one of its rows, of which there is at least one.
\<close>

theorem labeled_row_has_name_and_cell:
  assumes "lr \<in> set (snd (join_tables contents))"
  shows "2 \<le> length lr
     \<and> (\<exists>i < length (tables_of contents).
          \<exists>row \<in> set (find_all [''tr''] (elements contents ! (tables_of contents ! i))).
            row_cells row \<noteq> []
            \<and> lr = table_name (elements contents) i (tables_of contents ! i) # row_cells row)"
proof -
  from assms obtain i row where
    i: "i < length (tables_of contents)" and
    row: "row \<in> set (find_all [''tr''] (elements contents ! (tables_of contents ! i)))" and
    ne: "row_cells row \<noteq> []" and
    lr: "lr = table_name (elements contents) i (tables_of contents ! i) # row_cells row"
    unfolding join_tables_rows in_labeled_rows_iff by blast
  from ne lr have "2 \<le> length lr" by (cases "row_cells row") auto
  with i row ne lr show ?thesis by blast
qed

theorem labeled_row_has_name_and_cell_witness:
  "[''Industry Codes'', ''51'', ''Finance''] \<in> set (snd (join_tables example_page))
   \<and> 2 \<le> length [''Industry Codes'', ''51'', ''Finance'']
   \<and> (\<exists>i < length (tables_of example_page).
        \<exists>row \<in> set (find_all [''tr''] (elements example_page ! (tables_of example_page ! i))).
          row_cells row \<noteq> []
          \<and> [''Industry Codes'', ''51'', ''Finance'']
              = table_name (elements example_page) i (tables_of example_page ! i) # row_cells row)"
proof -
  have m: "[''Industry Codes'', ''51'', ''Finance''] \<in> set (snd (join_tables example_page))"
    by code_simp
  from m labeled_row_has_name_and_cell [OF m] show ?thesis by (rule conjI)
qed


text \<open>
  C3. A row element with no header cell and no data cell leaves no trace: the rows of
  a table are appended as if the row element were not there, the returned list has no
  row that is only the name of a table, and neither has the file written from it.
\<close>

theorem empty_rows_dropped:
  assumes "row_cells row = []"
  shows "row_loop name (rows1 @ row # rows2) acc = row_loop name (rows1 @ rows2) acc
       \<and> name # row_cells row \<notin> set (snd (join_tables contents))
       \<and> (\<exists>content.
            files_after (write_to_csv None (snd (join_tables contents)) filename fs) filename
              = Some content
            \<and> name # row_cells row \<notin> set (parse_csv content))"
  using assms
  by (simp add: row_loop_skips_empty join_tables_rows no_one_field_row
      write_to_csv_no_fault parse_csv_text)

theorem empty_rows_dropped_witness:
  "row_cells (Tag ''tr'' [NavigableString '' '']) = []
   \<and> row_loop ''N'' ([Tag ''tr'' [Tag ''td'' [NavigableString ''a'']]]
                      @ Tag ''tr'' [NavigableString '' '']
                      # [Tag ''tr'' [Tag ''th'' [NavigableString ''b'']]]) []
       = [[''N'', ''a''], [''N'', ''b'']]
   \<and> [''Industry Codes''] \<notin> set (snd (join_tables example_page))
   \<and> (\<exists>content.
        files_after (write_to_csv None (snd (join_tables example_page)) ''out.csv'' Map.empty)
          ''out.csv'' = Some content
        \<and> [''Industry Codes''] \<notin> set (parse_csv content))"
proof -
  have e: "row_cells (Tag ''tr'' [NavigableString '' '']) = []" by code_simp
  have r: "row_loop ''N'' ([Tag ''tr'' [Tag ''td'' [NavigableString ''a'']]]
                      @ [Tag ''tr'' [Tag ''th'' [NavigableString ''b'']]]) []
       = [[''N'', ''a''], [''N'', ''b'']]"
    by code_simp
  from empty_rows_dropped [OF e, of "''N''" "[Tag ''tr'' [Tag ''td'' [NavigableString ''a'']]]"
      "[Tag ''tr'' [Tag ''th'' [NavigableString ''b'']]]" "[]" example_page "''out.csv''" Map.empty]
    empty_rows_dropped [OF e, of "''Industry Codes''" "[]" "[]" "[]" example_page "''out.csv''" Map.empty]
  show ?thesis by (simp only: e r simp_thms)
qed

text \<open>
  C5. When the GET fails, by an exception of the transport or by a 4xx or 5xx status,
  \<^verbatim>\<open>extract_and_join_tables\<close> returns the empty list and raises nothing, one message
  reports the failure, and the script ends with every file as it was.
\<close>

theorem fetch_failure_empty_result:
  "(fetch_fails w url \<longrightarrow>
      (\<exists>msg. extract_and_join_tables w url = ([ErrorFetchingURL url msg], Inr [])))
   \<and> (fetch_fails w target_url \<longrightarrow>
      (\<exists>msg. main w flt fs =
         \<lparr>printed = [ErrorFetchingURL target_url msg, FailedToExtract],
          files_after = fs, escaped = None\<rparr>))"
proof (intro conjI impI)
  assume "fetch_fails w url"
  then show "\<exists>msg. extract_and_join_tables w url = ([ErrorFetchingURL url msg], Inr [])"
    by (rule extract_fetch_fails)
next
  assume "fetch_fails w target_url"
  then obtain msg where
    "extract_and_join_tables w target_url = ([ErrorFetchingURL target_url msg], Inr [])"
    using extract_fetch_fails by blast
  then show "\<exists>msg. main w flt fs =
         \<lparr>printed = [ErrorFetchingURL target_url msg, FailedToExtract],
          files_after = fs, escaped = None\<rparr>"
    by (simp add: main_def)
qed

theorem fetch_failure_empty_result_witness:
  "fetch_fails world_404 target_url
   \<and> (\<exists>msg. extract_and_join_tables world_404 target_url
              = ([ErrorFetchingURL target_url msg], Inr []))
   \<and> (\<exists>msg. main world_404 None [output_csv_filename \<mapsto> ''old'']
              = \<lparr>printed = [ErrorFetchingURL target_url msg, FailedToExtract],
                 files_after = [output_csv_filename \<mapsto> ''old''], escaped = None\<rparr>)
   \<and> fetch_fails world_down target_url
   \<and> (\<exists>msg. extract_and_join_tables world_down target_url
              = ([ErrorFetchingURL target_url msg], Inr []))"
proof -
  have a: "fetch_fails world_404 target_url" by code_simp
  have b: "fetch_fails world_down target_url" by code_simp
  from a b
    fetch_failure_empty_result [of world_404 target_url None "[output_csv_filename \<mapsto> ''old'']"]
    fetch_failure_empty_result [of world_down target_url None "[output_csv_filename \<mapsto> ''old'']"]
  show ?thesis by blast
qed

text \<open>
  C6. Writing the same rows to the same path a second time leaves the files as the
  first run left them; the content of the file is the text of the rows alone, whatever
  the file held before.
\<close>

theorem write_to_csv_idempotent:
  "files_after (write_to_csv flt data filename (files_after (write_to_csv flt data filename fs)))
     = files_after (write_to_csv flt data filename fs)
   \<and> files_after (write_to_csv None data filename fs) = fs(filename \<mapsto> csv_text data)"
  by (simp add: files_after_write_twice write_to_csv_no_fault)

theorem write_to_csv_idempotent_witness:
  "files_after (write_to_csv None example_rows ''out.csv''
      (files_after (write_to_csv None example_rows ''out.csv'' [''out.csv'' \<mapsto> ''old''])))
     = files_after (write_to_csv None example_rows ''out.csv'' [''out.csv'' \<mapsto> ''old''])
   \<and> files_after (write_to_csv None example_rows ''out.csv'' [''out.csv'' \<mapsto> ''old''])
     = [''out.csv'' \<mapsto> ''old''](''out.csv'' \<mapsto> csv_text example_rows)"
  by (rule write_to_csv_idempotent)

text \<open>
  C7. When opening or writing the file fails with an \<^verbatim>\<open>IOError\<close>,
  \<^verbatim>\<open>write_to_csv\<close> reports it and returns; no exception escapes it, and the script,
  whose extractor has returned before the writer is called, ends with none either.
  A file that could not be opened is left as it was; a file whose write failed keeps
  the part that was written.
\<close>

theorem io_failure_caught:
  assumes "is_IOError e"
    and "flt = Some (OpenFault e) \<or> flt = Some (WriteFault n e)"
  shows "escaped (write_to_csv flt data filename fs) = None
     \<and> (flt = Some (OpenFault e) \<longrightarrow>
          write_to_csv flt data filename fs =
            \<lparr>printed = [ErrorWritingCSV filename (exn_str e)], files_after = fs,
             escaped = None\<rparr>)
     \<and> (flt = Some (WriteFault n e) \<longrightarrow>
          write_to_csv flt data filename fs =
            (if n < length (csv_text data)
             then \<lparr>printed = [ErrorWritingCSV filename (exn_str e)],
                   files_after = fs(filename \<mapsto> take n (csv_text data)), escaped = None\<rparr>
             else \<lparr>printed = [DataWritten filename],
                   files_after = fs(filename \<mapsto> csv_text data), escaped = None\<rparr>))
     \<and> (extract_and_join_tables w target_url = (out, Inr rows) \<longrightarrow>
          escaped (main w flt fs) = None)"
proof -
  have esc: "escaped (write_to_csv flt rows f fs') = None" for rows f fs'
    using assms by (auto simp: write_to_csv_open_fault write_to_csv_write_fault)
  show ?thesis
    using assms(1) esc
    by (auto simp: write_to_csv_open_fault write_to_csv_write_fault intro: main_no_escape)
qed

theorem io_failure_caught_witness:
  "is_IOError (IOError ''No space left on device'')
   \<and> escaped (write_to_csv (Some (WriteFault 5 (IOError ''No space left on device'')))
        example_rows ''out.csv'' Map.empty) = None
   \<and> printed (write_to_csv (Some (WriteFault 5 (IOError ''No space left on device'')))
        example_rows ''out.csv'' Map.empty)
       = [ErrorWritingCSV ''out.csv'' ''No space left on device'']
   \<and> files_after (write_to_csv (Some (WriteFault 5 (IOError ''No space left on device'')))
        example_rows ''out.csv'' Map.empty) ''out.csv''
       = Some [CHR ''T'', CHR ''1'', delimiter, quotechar, CHR ''a'']
   \<and> extract_and_join_tables world_ok target_url
       = ([], Inr [[''Table 1'', ''a''],
               [''Industry Codes'', ''Code'', ''Name''],
               [''Industry Codes'', ''51'', ''Finance''],
               [''Appendix'', ''x''],
               [''Table 4'', ''y'']])
   \<and> escaped (main world_ok (Some (OpenFault (IOError ''No space left on device''))) Map.empty)
       = None"
proof -
  have i: "is_IOError (IOError ''No space left on device'')" by simp
  have l: "5 < length (csv_text example_rows)" by code_simp
  have t: "take 5 (csv_text example_rows) = [CHR ''T'', CHR ''1'', delimiter, quotechar, CHR ''a'']"
    by code_simp
  from io_failure_caught [OF i, where flt = "Some (WriteFault 5 (IOError ''No space left on device''))"
      and n = 5 and data = example_rows and filename = "''out.csv''" and fs = Map.empty]
  have "write_to_csv (Some (WriteFault 5 (IOError ''No space left on device'')))
          example_rows ''out.csv'' Map.empty =
        \<lparr>printed = [ErrorWritingCSV ''out.csv'' ''No space left on device''],
         files_after = [''out.csv'' \<mapsto> take 5 (csv_text example_rows)], escaped = None\<rparr>"
    using l by simp
  moreover have x: "extract_and_join_tables world_ok target_url
       = ([], Inr [[''Table 1'', ''a''],
               [''Industry Codes'', ''Code'', ''Name''],
               [''Industry Codes'', ''51'', ''Finance''],
               [''Appendix'', ''x''],
               [''Table 4'', ''y'']])"
    by code_simp
  moreover from io_failure_caught [OF i,
      where flt = "Some (OpenFault (IOError ''No space left on device''))"
      and fs = Map.empty and w = world_ok and out = "[]"
      and rows = "[[''Table 1'', ''a''],
               [''Industry Codes'', ''Code'', ''Name''],
               [''Industry Codes'', ''51'', ''Finance''],
               [''Appendix'', ''x''],
               [''Table 4'', ''y'']]"] x
  have "escaped (main world_ok (Some (OpenFault (IOError ''No space left on device''))) Map.empty)
          = None"
    by simp
  ultimately show ?thesis using i t by simp
qed


text \<open>
  C9. When a table is nested in another table, every row of the inner table that has a
  cell is returned at least twice: with the name of the outer table, whose rows
  include it, and with the name of the inner table.
\<close>

theorem nested_rows_emitted_twice:
  assumes "i < length (tables_of contents)" and "i' < length (tables_of contents)"
    and "p = tables_of contents ! i" and "q = tables_of contents ! i'"
    and "els = elements contents"
    and "inside els p q"
    and "row \<in> set (find_all [''tr''] (els ! q))"
    and "row_cells row \<noteq> []"
  shows "table_name els i p # row_cells row \<in> set (snd (join_tables contents))
       \<and> table_name els i' q # row_cells row \<in> set (snd (join_tables contents))
       \<and> 2 \<le> length (filter (\<lambda>lr. tl lr = row_cells row) (snd (join_tables contents)))"
proof -
  have els: "els = descendants (soup contents)"
    using assms(5) by (simp add: elements_def)
  have q: "q < length els"
    using assms(2,4,5) by (simp add: tables_of_in_range)
  have "els ! q \<in> set (descendants (els ! p))"
    using assms(6) q unfolding els by (rule inside_descendant)
  then have outer: "row \<in> set (find_all [''tr''] (els ! p))"
    using assms(7) find_all_nested by blast
  have in_p: "table_name els i p # row_cells row \<in> set (table_rows els i p)"
    using outer assms(8) unfolding in_table_rows_iff by blast
  have in_q: "table_name els i' q # row_cells row \<in> set (table_rows els i' q)"
    using assms(7,8) unfolding in_table_rows_iff by blast
  have less: "i < i'"
    using assms(1-4,6) by (intro tables_of_less [of i contents i']) (simp_all add: inside_def)
  let ?f = "\<lambda>(i, p). table_rows els i p"
  let ?xs = "enumerate 0 (tables_of contents)"
  have "2 \<le> length (filter (\<lambda>lr. tl lr = row_cells row) (concat (map ?f ?xs)))"
  proof (rule two_in_concat [where i = i and j = i'
        and a = "table_name els i p # row_cells row"
        and b = "table_name els i' q # row_cells row"])
    show "i < i'" by (rule less)
    show "i' < length ?xs" using assms(2) by simp
    show "table_name els i p # row_cells row \<in> set (?f (?xs ! i))"
      using in_p assms(1,3) by (simp add: nth_enumerate_eq)
    show "table_name els i' q # row_cells row \<in> set (?f (?xs ! i'))"
      using in_q assms(2,4) by (simp add: nth_enumerate_eq)
  qed simp_all
  then have two: "2 \<le> length (filter (\<lambda>lr. tl lr = row_cells row) (snd (join_tables contents)))"
    by (simp add: join_tables_rows labeled_rows_def assms(5))
  have "table_name els i p # row_cells row \<in> set (snd (join_tables contents))"
    unfolding join_tables_rows in_labeled_rows_iff
    using outer assms(1,3,5,8) by blast
  moreover have "table_name els i' q # row_cells row \<in> set (snd (join_tables contents))"
    unfolding join_tables_rows in_labeled_rows_iff
    using assms(2,4,5,7,8) by blast
  ultimately show ?thesis using two by blast
qed

theorem nested_rows_emitted_twice_witness:
  "snd (join_tables nested_page)
     = [[''Outer'', ''oInnerx'', ''x''], [''Outer'', ''x''], [''Inner'', ''x'']]
   \<and> [''Outer'', ''x''] \<in> set (snd (join_tables nested_page))
   \<and> [''Inner'', ''x''] \<in> set (snd (join_tables nested_page))
   \<and> 2 \<le> length (filter (\<lambda>lr. tl lr = [''x'']) (snd (join_tables nested_page)))"
proof -
  have t: "tables_of nested_page = [0, 6]" by code_simp
  have ins: "inside (elements nested_page) 0 6" by code_simp
  have row: "Tag ''tr'' [Tag ''td'' [NavigableString ''x'']]
               \<in> set (find_all [''tr''] (elements nested_page ! 6))"
    by code_simp
  have cells: "row_cells (Tag ''tr'' [Tag ''td'' [NavigableString ''x'']]) = [''x'']"
    by code_simp
  have n0: "table_name (elements nested_page) 0 0 = ''Outer''" by code_simp
  have n1: "table_name (elements nested_page) 1 6 = ''Inner''" by code_simp
  have res: "snd (join_tables nested_page)
     = [[''Outer'', ''oInnerx'', ''x''], [''Outer'', ''x''], [''Inner'', ''x'']]"
    by code_simp
  have "table_name (elements nested_page) 0 0
          # row_cells (Tag ''tr'' [Tag ''td'' [NavigableString ''x'']])
          \<in> set (snd (join_tables nested_page))
       \<and> table_name (elements nested_page) 1 6
          # row_cells (Tag ''tr'' [Tag ''td'' [NavigableString ''x'']])
          \<in> set (snd (join_tables nested_page))
       \<and> 2 \<le> length (filter (\<lambda>lr. tl lr
                  = row_cells (Tag ''tr'' [Tag ''td'' [NavigableString ''x'']]))
                (snd (join_tables nested_page)))"
    by (rule nested_rows_emitted_twice [where contents = nested_page and i = 0 and i' = 1])
       (simp_all add: t ins row cells)
  then have "[''Outer'', ''x''] \<in> set (snd (join_tables nested_page))
       \<and> [''Inner'', ''x''] \<in> set (snd (join_tables nested_page))
       \<and> 2 \<le> length (filter (\<lambda>lr. tl lr = [''x'']) (snd (join_tables nested_page)))"
    by (simp only: n0 n1 cells)
  with res show ?thesis by (rule conjI)
qed


end
